theory Spec2Isabelle
  imports Main
begin

section \<open>Python values used by \<open>Wide_Table.py\<close>\<close>

text \<open>
  Python integers are unbounded, so they are \<^typ>\<open>int\<close>. Python's \<open>divmod\<close> is floor
  division with a remainder that takes the sign of the divisor, which is what \<open>div\<close> and
  \<open>mod\<close> on \<^typ>\<open>int\<close> compute; it raises \<open>ZeroDivisionError\<close> on a zero divisor, where
  HOL's \<open>div\<close> would return 0.

  The two exceptions the module can raise are values of \<open>error\<close>: \<open>ZeroDivisionError\<close> from
  \<open>divmod\<close> in \<open>generate_subtables\<close>, and \<open>IndexError\<close> from \<open>top_rule[0]\<close> in
  \<open>insert_command\<close>. The module defines no exception class of its own and has no
  \<open>raise\<close> statement.
\<close>

datatype error = ZeroDivisionError | IndexError

text \<open>
  A slice bound of a Python sequence of length \<open>n\<close>: a negative bound counts from the end,
  and every bound is clamped into \<open>[0, n]\<close>.
\<close>

definition slice_index :: "nat \<Rightarrow> int \<Rightarrow> nat" where
  "slice_index n i = (if i < 0 then nat (max (i + int n) 0) else min (nat i) n)"

text \<open>\<open>xs[start:stop]\<close> and \<open>xs[start:]\<close> with step 1.\<close>

definition py_slice :: "'a list \<Rightarrow> int \<Rightarrow> int \<Rightarrow> 'a list" where
  "py_slice xs start stop =
     (let lo = slice_index (length xs) start;
          hi = slice_index (length xs) stop
      in take (hi - lo) (drop lo xs))"

definition py_slice_from :: "'a list \<Rightarrow> int \<Rightarrow> 'a list" where
  "py_slice_from xs start = drop (slice_index (length xs) start) xs"

text \<open>\<open>range(n)\<close>: the integers \<open>0, \<dots>, n - 1\<close>, none when \<open>n \<le> 0\<close>.\<close>

definition py_range :: "int \<Rightarrow> int list" where
  "py_range n = [0..n - 1]"

text \<open>
  \<open>xs.insert(i, x)\<close>: a negative index counts from the end, and the index is clamped into
  \<open>[0, len(xs)]\<close>; \<open>insert\<close> never raises.
\<close>

definition py_insert :: "'a list \<Rightarrow> int \<Rightarrow> 'a \<Rightarrow> 'a list" where
  "py_insert xs i x =
     (let j = slice_index (length xs) i in take j xs @ x # drop j xs)"

section \<open>The partitioner: \<open>generate_subtables\<close>\<close>

text \<open>
  A data frame is the ordered list of its columns (a column is its name with its values,
  of an arbitrary type \<open>'c\<close>). \<open>table.iloc[:, a:b]\<close> keeps every row and selects the
  columns of the slice \<open>a:b\<close>, with the bounds of a Python slice.
\<close>

type_synonym 'c dataframe = "'c list"

definition iloc_cols :: "'c dataframe \<Rightarrow> int \<Rightarrow> int \<Rightarrow> 'c dataframe" where
  "iloc_cols table a b = py_slice table a b"

definition iloc_cols_from :: "'c dataframe \<Rightarrow> int \<Rightarrow> 'c dataframe" where
  "iloc_cols_from table a = py_slice_from table a"

text \<open>
  The loop \<open>for x in range(no_subtables): subtables.append(\<dots>)\<close> is a fold over the range
  that appends to the list built so far.
\<close>

definition generate_subtables :: "'c dataframe \<Rightarrow> int \<Rightarrow> error + 'c dataframe list" where
  "generate_subtables table no_cols =
     (let cols = int (length table) in
      if no_cols = 0 then Inl ZeroDivisionError
      else
        let no_subtables = cols div no_cols;
            remainder = cols mod no_cols;
            end_table = iloc_cols_from table (- remainder);
            subtables = fold (\<lambda>x acc. acc @ [iloc_cols table (x * no_cols) (no_cols * (x + 1))])
                             (py_range no_subtables) []
        in Inr (subtables @ [end_table]))"

section \<open>Strings, lines and the markup tokens\<close>

definition newline :: char where
  "newline = CHR 0x0A"

definition backslash :: char where
  "backslash = CHR 0x5C"

text \<open>\<open>s.split("\n")\<close>: the pieces between newlines; never empty (\<open>"".split("\n") = [""]\<close>).\<close>

fun split_nl :: "string \<Rightarrow> string list" where
  "split_nl [] = [[]]"
| "split_nl (c # cs) =
     (if c = newline then [] # split_nl cs
      else (c # hd (split_nl cs)) # tl (split_nl cs))"

text \<open>\<open>"\n".join(ls)\<close>.\<close>

fun join_nl :: "string list \<Rightarrow> string" where
  "join_nl [] = []"
| "join_nl [l] = l"
| "join_nl (l # ls) = l @ newline # join_nl ls"

text \<open>The literals \<open>"\\toprule"\<close>, \<open>"\\centering"\<close>, \<open>"\\midrule"\<close> and \<open>"\\newpage\n"\<close>.\<close>

definition toprule :: string where
  "toprule = backslash # ''toprule''"

definition centering :: string where
  "centering = backslash # ''centering''"

definition midrule :: string where
  "midrule = backslash # ''midrule''"

definition newpage :: string where
  "newpage = backslash # ''newpage'' @ [newline]"

section \<open>The renderer and the decorator\<close>

text \<open>
  \<open>latex_subtables\<close> calls pandas' \<open>DataFrame.to_latex\<close>, which is not part of this
  module: the renderer is a parameter \<open>to_latex\<close>.
\<close>

definition latex_subtables :: "('c dataframe \<Rightarrow> string) \<Rightarrow> 'c dataframe list \<Rightarrow> string list" where
  "latex_subtables to_latex subtables = map to_latex subtables"

text \<open>The two directives of the f-string of \<open>wrap_table\<close>, without their newlines.\<close>

definition begin_container :: "string \<Rightarrow> string" where
  "begin_container container = backslash # ''begin{'' @ container @ ''}''"

definition end_container :: "string \<Rightarrow> string" where
  "end_container container = backslash # ''end{'' @ container @ ''}''"

definition wrap_table :: "string list \<Rightarrow> string \<Rightarrow> string list" where
  "wrap_table latex_tables container =
     map (\<lambda>lt. begin_container container @ [newline] @ lt @ end_container container @ [newline])
         latex_tables"

text \<open>
  The body of the loop of \<open>insert_command\<close> for one block. \<open>top_rule\<close> is the list of the
  indices of the lines equal to \<open>"\\toprule"\<close>; \<open>top_rule[0]\<close> raises \<open>IndexError\<close> when
  that list is empty.
\<close>

definition top_rule :: "string list \<Rightarrow> nat list" where
  "top_rule row_split = [i \<leftarrow> [0..<length row_split]. row_split ! i = toprule]"

definition insert_command_block :: "string \<Rightarrow> string \<Rightarrow> int \<Rightarrow> error + string" where
  "insert_command_block sub_table command row =
     (let row_split = split_nl sub_table in
      case top_rule row_split of
        [] \<Rightarrow> Inl IndexError
      | t # _ \<Rightarrow> Inr (join_nl (py_insert row_split (int t + row) command)))"

text \<open>
  The loop over the blocks: the first block that raises aborts the call, otherwise the new
  block is appended to the result.
\<close>

fun insert_command :: "string list \<Rightarrow> string \<Rightarrow> int \<Rightarrow> error + string list" where
  "insert_command [] command row = Inr []"
| "insert_command (sub_table # latex_tables) command row =
     (case insert_command_block sub_table command row of
        Inl e \<Rightarrow> Inl e
      | Inr st_new \<Rightarrow>
          (case insert_command latex_tables command row of
             Inl e \<Rightarrow> Inl e
           | Inr rest \<Rightarrow> Inr (st_new # rest)))"

section \<open>The assembler and the orchestrator\<close>

definition combine_subtables :: "string list \<Rightarrow> string" where
  "combine_subtables latex_tables = concat (map (\<lambda>lt. newpage @ lt) latex_tables)"

text \<open>
  The loop \<open>for count, mr in enumerate(midrules)\<close> of \<open>wide_table\<close>, from the counter
  \<open>count\<close> on; it stops at the first insertion that raises.
\<close>

fun insert_midrules :: "string list \<Rightarrow> int \<Rightarrow> int list \<Rightarrow> error + string list" where
  "insert_midrules latex_tables count [] = Inr latex_tables"
| "insert_midrules latex_tables count (mr # midrules) =
     (case insert_command latex_tables midrule (mr + count) of
        Inl e \<Rightarrow> Inl e
      | Inr latex_tables' \<Rightarrow> insert_midrules latex_tables' (count + 1) midrules)"

text \<open>
  \<open>wide_table_blocks\<close> is \<open>wide_table\<close> up to the value of \<open>latex_tables\<close> that is handed
  to \<open>combine_subtables\<close>; \<open>midrules\<close> is \<open>None\<close> by default, which the code replaces
  by the empty list.
\<close>

definition wide_table_blocks ::
  "('c dataframe \<Rightarrow> string) \<Rightarrow> 'c dataframe \<Rightarrow> int \<Rightarrow> bool \<Rightarrow> bool \<Rightarrow> int list option
     \<Rightarrow> error + string list" where
  "wide_table_blocks to_latex table no_cols landscape center midrules =
     (case generate_subtables table no_cols of
        Inl e \<Rightarrow> Inl e
      | Inr subtables \<Rightarrow>
          (let latex_tables = latex_subtables to_latex subtables in
           case (if center
                 then insert_command (wrap_table latex_tables ''table'') centering 0
                 else Inr latex_tables) of
             Inl e \<Rightarrow> Inl e
           | Inr latex_tables1 \<Rightarrow>
               (let latex_tables2 =
                      (if landscape then wrap_table latex_tables1 ''landscape''
                       else latex_tables1)
                in insert_midrules latex_tables2 0
                     (case midrules of None \<Rightarrow> [] | Some ms \<Rightarrow> ms))))"

definition wide_table ::
  "('c dataframe \<Rightarrow> string) \<Rightarrow> 'c dataframe \<Rightarrow> int \<Rightarrow> bool \<Rightarrow> bool \<Rightarrow> int list option
     \<Rightarrow> error + string" where
  "wide_table to_latex table no_cols landscape center midrules =
     (case wide_table_blocks to_latex table no_cols landscape center midrules of
        Inl e \<Rightarrow> Inl e
      | Inr latex_tables \<Rightarrow> Inr (combine_subtables latex_tables))"

section \<open>Columns of a table, as the specification counts them\<close>

text \<open>Columns \<open>[a, b)\<close> of a table: the columns with index \<open>a \<le> i < b\<close>, in order.\<close>

definition columns :: "'c dataframe \<Rightarrow> nat \<Rightarrow> nat \<Rightarrow> 'c dataframe" where
  "columns table a b = take (b - a) (drop a table)"

text \<open>
  The index of the first line equal to the top-rule marker (the number of lines when no
  line is the marker).
\<close>

definition marker_index :: "string list \<Rightarrow> nat" where
  "marker_index ls = length (takeWhile (\<lambda>l. l \<noteq> toprule) ls)"

text \<open>
  A small renderer with the shape of the output of \<open>to_latex\<close>, on tables whose columns
  are strings, to run the pipeline on concrete tables.
\<close>

definition sample_to_latex :: "string dataframe \<Rightarrow> string" where
  "sample_to_latex table =
     backslash # ''begin{tabular}'' @ [newline] @ toprule @ [newline] @ concat table
     @ [newline] @ backslash # ''end{tabular}'' @ [newline]"


section \<open>Facts about slices and ranges\<close>

lemma fold_append_map: "fold (\<lambda>x acc. acc @ [f x]) xs ys = ys @ map f xs"
  by (induction xs arbitrary: ys) simp_all

lemma py_range_nat: "py_range (int n) = map int [0..<n]"
proof (induction n)
  case 0
  show ?case by (simp add: py_range_def)
next
  case (Suc n)
  have "[0..int (Suc n) - 1] = [0..int n - 1] @ [int n]"
    using upto_rec2 [of 0 "int n"] by simp
  with Suc show ?case by (simp add: py_range_def)
qed

lemma py_range_nonpos: "n \<le> 0 \<Longrightarrow> py_range n = []"
  by (simp add: py_range_def)

lemma slice_index_nat: "slice_index n (int i) = min i n"
  by (simp add: slice_index_def)

lemma full_slice:
  assumes "(k + 1) * W \<le> length t"
  shows "iloc_cols t (int k * int W) (int W * (int k + 1)) = take W (drop (k * W) t)"
proof -
  have a: "int k * int W = int (k * W)" by simp
  have b: "int W * (int k + 1) = int ((k + 1) * W)" by (simp add: algebra_simps)
  have c: "k * W \<le> length t" using assms by simp
  show ?thesis
    unfolding iloc_cols_def py_slice_def a b slice_index_nat Let_def
    using assms c by (simp add: min_absorb1)
qed

lemma remainder_slice:
  "iloc_cols_from t (- int r) = (if r = 0 then t else drop (length t - r) t)"
  by (auto simp add: iloc_cols_from_def py_slice_from_def slice_index_def
        nat_diff_distrib' max_def)

text \<open>The result of the partitioner for every positive width.\<close>

lemma generate_subtables_pos:
  assumes "0 < W"
  shows "generate_subtables t (int W) =
           Inr (map (\<lambda>k. take W (drop (k * W) t)) [0..<length t div W]
                @ [if length t mod W = 0 then t else drop (length t - length t mod W) t])"
proof -
  let ?C = "length t"
  have q: "int ?C div int W = int (?C div W)" by (simp add: zdiv_int)
  have r: "int ?C mod int W = int (?C mod W)" by (simp add: zmod_int)
  have full: "iloc_cols t (int k * int W) (int W * (int k + 1)) = take W (drop (k * W) t)"
    if "k < ?C div W" for k
  proof (rule full_slice)
    have "(k + 1) * W \<le> (?C div W) * W" using that by (intro mult_le_mono1) simp
    also have "\<dots> \<le> ?C" by simp
    finally show "(k + 1) * W \<le> ?C" .
  qed
  have m: "map (\<lambda>x. iloc_cols t (x * int W) (int W * (x + 1))) (map int [0..<?C div W])
           = map (\<lambda>k. take W (drop (k * W) t)) [0..<?C div W]"
    using full by (simp add: o_def)
  show ?thesis
    using assms
    unfolding generate_subtables_def Let_def q r fold_append_map py_range_nat remainder_slice m
    by simp
qed

lemma concat_full_slices:
  "n * W \<le> length t \<Longrightarrow> concat (map (\<lambda>k. take W (drop (k * W) t)) [0..<n]) = take (n * W) t"
proof (induction n)
  case 0
  show ?case by simp
next
  case (Suc n)
  then have ih: "concat (map (\<lambda>k. take W (drop (k * W) t)) [0..<n]) = take (n * W) t" by simp
  have "take (n * W) t @ take W (drop (n * W) t) = take (n * W + W) t"
    by (simp add: take_add)
  then show ?case using ih by (simp add: add.commute)
qed

lemma pos_int_nat: "0 < (W::int) \<Longrightarrow> \<exists>w. W = int w \<and> 0 < w"
  by (rule exI [of _ "nat W"]) simp

lemma full_bound: "k < (n::nat) div w \<Longrightarrow> (k + 1) * w \<le> n"
proof -
  assume "k < n div w"
  then have "(k + 1) * w \<le> (n div w) * w" by (intro mult_le_mono1) simp
  also have "\<dots> \<le> n" by simp
  finally show ?thesis .
qed

text \<open>
  When the width divides the number of columns, the slice \<open>-remainder:\<close> is \<open>-0:\<close>, that
  is \<open>0:\<close>, and the last block is the whole table.
\<close>

lemma generate_subtables_divisible:
  assumes "0 < W" and "int (length t) mod W = 0"
  shows "generate_subtables t W =
           Inr (map (\<lambda>k. columns t (k * nat W) ((k + 1) * nat W))
                    [0..<nat (int (length t) div W)]
                @ [t])"
proof -
  obtain w where w: "W = int w" "0 < w" using pos_int_nat [OF assms(1)] by blast
  have q: "nat (int (length t) div int w) = length t div w" by (simp flip: zdiv_int)
  have r: "length t mod w = 0" using assms(2) unfolding w(1) by (simp flip: zmod_int)
  show ?thesis
    unfolding w(1) q nat_int generate_subtables_pos [OF w(2)] columns_def
    using r by simp
qed

section \<open>The partitioner: results\<close>

text \<open>
  C1. The claim: when the width \<open>W\<close> divides the number of columns \<open>C\<close> (\<open>0 < W \<le> C\<close>),
  \<open>generate_subtables\<close> returns exactly \<open>C / W\<close> partitions of \<open>W\<close> columns and no
  partition equal to the full table. The code does otherwise: on a table of 8 columns and
  width 4 it returns three partitions, the two full ones followed by the whole table of 8
  columns, since \<open>table.iloc[:, -0:]\<close> selects every column.
\<close>

theorem generate_subtables_8_columns_width_4:
  "generate_subtables [0, 1, 2, 3, 4, 5, 6, 7 :: nat] 4 =
     Inr [[0, 1, 2, 3], [4, 5, 6, 7], [0, 1, 2, 3, 4, 5, 6, 7]]"
  using generate_subtables_pos [of 4 "[0, 1, 2, 3, 4, 5, 6, 7 :: nat]"]
  by (simp add: upt_rec)

text \<open>
  C2. For a table of \<open>C\<close> columns and a width \<open>W\<close> with \<open>0 < W \<le> C\<close> and
  \<open>R = C mod W > 0\<close>, \<open>generate_subtables\<close> returns the \<open>Q = C div W\<close> full partitions,
  the \<open>k\<close>-th being columns \<open>[k * W, (k + 1) * W)\<close>, followed by the remainder partition,
  columns \<open>[C - R, C)\<close>: \<open>Q + 1\<close> partitions in all. The full partitions have \<open>W\<close> columns
  each and, concatenated in order, are columns \<open>[0, Q * W)\<close>; the remainder partition has
  \<open>R\<close> columns.
\<close>

theorem generate_subtables_with_remainder:
  fixes t :: "'c dataframe" and W :: int
  assumes "0 < W" and "W \<le> int (length t)" and "0 < int (length t) mod W"
  shows "generate_subtables t W =
           Inr (map (\<lambda>k. columns t (k * nat W) ((k + 1) * nat W))
                    [0..<nat (int (length t) div W)]
                @ [columns t (length t - nat (int (length t) mod W)) (length t)])
         \<and> length (map (\<lambda>k. columns t (k * nat W) ((k + 1) * nat W))
                       [0..<nat (int (length t) div W)]
                   @ [columns t (length t - nat (int (length t) mod W)) (length t)])
             = nat (int (length t) div W) + 1
         \<and> concat (map (\<lambda>k. columns t (k * nat W) ((k + 1) * nat W))
                       [0..<nat (int (length t) div W)])
             = columns t 0 (nat (int (length t) div W) * nat W)
         \<and> (\<forall>k < nat (int (length t) div W).
               length (columns t (k * nat W) ((k + 1) * nat W)) = nat W)
         \<and> length (columns t (length t - nat (int (length t) mod W)) (length t))
             = nat (int (length t) mod W)"
proof -
  obtain w where w: "W = int w" "0 < w" using pos_int_nat [OF assms(1)] by blast
  have q: "nat (int (length t) div int w) = length t div w" by (simp flip: zdiv_int)
  have r: "nat (int (length t) mod int w) = length t mod w" by (simp flip: zmod_int)
  have rpos: "0 < length t mod w" using assms(3) unfolding w(1) by (simp flip: zmod_int)
  have le: "(length t div w) * w \<le> length t" by simp
  have gen: "generate_subtables t (int w) =
           Inr (map (\<lambda>k. columns t (k * w) ((k + 1) * w)) [0..<length t div w]
                @ [columns t (length t - length t mod w) (length t)])"
    unfolding generate_subtables_pos [OF w(2)] columns_def using rpos by simp
  have n: "length (map (\<lambda>k. columns t (k * w) ((k + 1) * w)) [0..<length t div w]
                   @ [columns t (length t - length t mod w) (length t)])
             = length t div w + 1"
    by simp
  have cc: "concat (map (\<lambda>k. columns t (k * w) ((k + 1) * w)) [0..<length t div w])
             = columns t 0 (length t div w * w)"
    unfolding columns_def using concat_full_slices [OF le] by simp
  have len: "length (columns t (k * w) ((k + 1) * w)) = w" if "k < length t div w" for k
    unfolding columns_def using full_bound [OF that] by simp
  have lr: "length (columns t (length t - length t mod w) (length t)) = length t mod w"
    unfolding columns_def by simp
  show ?thesis unfolding w(1) q r nat_int using gen n cc len lr by blast
qed

text \<open>The spec's scenario of 10 columns and width 4: partitions of widths 4, 4 and 2.\<close>

theorem generate_subtables_with_remainder_witness:
  "0 < (4::int) \<and> 4 \<le> int (length [0, 1, 2, 3, 4, 5, 6, 7, 8, 9 :: nat])
   \<and> 0 < int (length [0, 1, 2, 3, 4, 5, 6, 7, 8, 9 :: nat]) mod 4
   \<and> generate_subtables [0, 1, 2, 3, 4, 5, 6, 7, 8, 9 :: nat] 4
       = Inr [[0, 1, 2, 3], [4, 5, 6, 7], [8, 9]]"
  using generate_subtables_with_remainder [of 4 "[0, 1, 2, 3, 4, 5, 6, 7, 8, 9 :: nat]"]
  by (simp add: columns_def upt_rec)

text \<open>
  C3. The claim: a width \<open>W \<le> 0\<close> makes the partitioner fail, and with no result. The code
  validates nothing: a negative width only makes \<open>divmod\<close> return a non-positive quotient
  and remainder, the loop does not run, and one partition is returned. On 3 columns and
  width \<open>-2\<close>, \<open>divmod(3, -2) = (-2, -1)\<close> and the result is the one partition
  \<open>table.iloc[:, 1:]\<close>.
\<close>

theorem generate_subtables_negative_width_returns:
  "generate_subtables [0, 1, 2 :: nat] (-2) = Inr [[1, 2]]"
  by (simp add: generate_subtables_def py_range_def iloc_cols_from_def py_slice_from_def
        slice_index_def)

text \<open>
  C3, as the code has it. For a width \<open>W \<le> 0\<close>: \<open>W = 0\<close> fails, with the
  \<open>ZeroDivisionError\<close> of \<open>divmod\<close>, and returns nothing; \<open>W < 0\<close> does not fail and returns
  exactly one partition, the columns from index \<open>-(C mod W)\<close> on.
\<close>

theorem generate_subtables_nonpositive_width:
  fixes t :: "'c dataframe" and W :: int
  assumes "W \<le> 0"
  shows "generate_subtables t W =
           (if W = 0 then Inl ZeroDivisionError
            else Inr [drop (nat (- (int (length t) mod W))) t])"
proof (cases "W = 0")
  case True
  then show ?thesis by (simp add: generate_subtables_def)
next
  case False
  then have neg: "W < 0" using assms by simp
  have q: "int (length t) div W \<le> 0" using neg by (simp add: div_nonneg_neg_le0)
  have r: "int (length t) mod W \<le> 0" using neg by (simp add: neg_mod_sign)
  have s: "iloc_cols_from t (- (int (length t) mod W)) = drop (nat (- (int (length t) mod W))) t"
    using r by (simp add: iloc_cols_from_def py_slice_from_def slice_index_def min_def)
  show ?thesis
    using False
    unfolding generate_subtables_def Let_def py_range_nonpos [OF q] s by simp
qed

theorem generate_subtables_nonpositive_width_witness:
  "(0 :: int) \<le> 0 \<and> generate_subtables [0, 1, 2 :: nat] 0 = Inl ZeroDivisionError"
  using generate_subtables_nonpositive_width [of 0 "[0, 1, 2 :: nat]"] by simp

text \<open>
  C7. For a table of \<open>C\<close> columns and a width \<open>W > C\<close>, \<open>generate_subtables\<close> returns no
  full partition and one remainder partition, the whole table.
\<close>

theorem generate_subtables_width_exceeds_columns:
  fixes t :: "'c dataframe" and W :: int
  assumes "int (length t) < W"
  shows "generate_subtables t W = Inr [t]"
proof -
  have "0 < W" using assms by linarith
  then obtain w where w: "W = int w" "0 < w" using pos_int_nat by blast
  have lt: "length t < w" using assms unfolding w(1) by simp
  show ?thesis
    unfolding w(1) generate_subtables_pos [OF w(2)] using lt by simp
qed

theorem generate_subtables_width_exceeds_columns_witness:
  "int (length [0, 1, 2 :: nat]) < 5 \<and> generate_subtables [0, 1, 2 :: nat] 5 = Inr [[0, 1, 2]]"
  using generate_subtables_width_exceeds_columns [of "[0, 1, 2 :: nat]" 5] by simp

section \<open>Facts about lines\<close>

lemma split_nl_nonempty [simp]: "split_nl s \<noteq> []"
  by (induction s) simp_all

lemma split_nl_no_newline: "l \<in> set (split_nl s) \<Longrightarrow> newline \<notin> set l"
proof (induction s arbitrary: l)
  case Nil
  then show ?case by simp
next
  case (Cons c cs)
  show ?case
  proof (cases "c = newline")
    case True
    with Cons show ?thesis by auto
  next
    case False
    with Cons.prems have "l = c # hd (split_nl cs) \<or> l \<in> set (tl (split_nl cs))" by simp
    then show ?thesis
    proof
      assume l: "l = c # hd (split_nl cs)"
      have "hd (split_nl cs) \<in> set (split_nl cs)" by simp
      then have "newline \<notin> set (hd (split_nl cs))" by (rule Cons.IH)
      with l False show ?thesis by auto
    next
      assume "l \<in> set (tl (split_nl cs))"
      then have "l \<in> set (split_nl cs)" by (rule list.set_sel(2) [rotated]) simp
      then show ?thesis by (rule Cons.IH)
    qed
  qed
qed

lemma join_nl_Cons_Cons: "join_nl ((c # l) # ls) = c # join_nl (l # ls)"
  by (cases ls) simp_all

lemma join_nl_Cons: "ls \<noteq> [] \<Longrightarrow> join_nl (l # ls) = l @ newline # join_nl ls"
  by (cases ls) simp_all

lemma join_split: "join_nl (split_nl s) = s"
proof (induction s)
  case Nil
  show ?case by simp
next
  case (Cons c cs)
  have "hd (split_nl cs) # tl (split_nl cs) = split_nl cs" by simp
  with Cons show ?case by (simp add: join_nl_Cons_Cons join_nl_Cons)
qed

lemma split_nl_line: "newline \<notin> set l \<Longrightarrow> split_nl l = [l]"
  by (induction l) auto

lemma split_nl_append_newline: "split_nl (a @ newline # s) = split_nl a @ split_nl s"
  by (induction a) simp_all

lemma split_nl_line_newline: "newline \<notin> set l \<Longrightarrow> split_nl (l @ newline # s) = l # split_nl s"
  by (simp add: split_nl_append_newline split_nl_line)

lemma split_join:
  "ls \<noteq> [] \<Longrightarrow> \<forall>l \<in> set ls. newline \<notin> set l \<Longrightarrow> split_nl (join_nl ls) = ls"
proof (induction ls rule: join_nl.induct)
  case 1
  then show ?case by simp
next
  case (2 l)
  then show ?case by (simp add: split_nl_line)
next
  case (3 l v va)
  then show ?case by (simp add: split_nl_line_newline)
qed

lemma split_nl_append:
  "split_nl (a @ b) = butlast (split_nl a) @ (last (split_nl a) @ hd (split_nl b)) # tl (split_nl b)"
proof (induction a)
  case Nil
  show ?case by simp
next
  case (Cons c a)
  obtain x xs where X: "split_nl a = x # xs" by (cases "split_nl a") simp_all
  show ?case
  proof (cases "c = newline")
    case True
    with Cons show ?thesis by simp
  next
    case False
    with Cons X show ?thesis by (cases xs) simp_all
  qed
qed

section \<open>Facts about the marker and \<open>insert_command\<close>\<close>

lemma top_rule_Nil: "toprule \<notin> set ls \<Longrightarrow> top_rule ls = []"
  unfolding top_rule_def filter_empty_conv using nth_mem by fastforce

lemma marker_index_less: "toprule \<in> set ls \<Longrightarrow> marker_index ls < length ls"
  unfolding marker_index_def by (induction ls) auto

lemma marker_index_nth: "toprule \<in> set ls \<Longrightarrow> ls ! marker_index ls = toprule"
  unfolding marker_index_def by (induction ls) auto

lemma marker_index_first: "i < marker_index ls \<Longrightarrow> ls ! i \<noteq> toprule"
  unfolding marker_index_def
proof (induction ls arbitrary: i)
  case Nil
  then show ?case by simp
next
  case (Cons l ls)
  then show ?case by (cases i) (auto split: if_splits)
qed

lemma top_rule_Cons:
  assumes "toprule \<in> set ls"
  shows "\<exists>rest. top_rule ls = marker_index ls # rest"
proof -
  let ?p = "marker_index ls"
  have p: "?p < length ls" using assms by (rule marker_index_less)
  have "[0..<length ls] = [0..<?p] @ ?p # [Suc ?p..<length ls]"
    using p by (metis le_add2 less_imp_add_positive upt_add_eq_append upt_conv_Cons le0 less_or_eq_imp_le)
  then have "top_rule ls = filter (\<lambda>i. ls ! i = toprule) [0..<?p]
               @ filter (\<lambda>i. ls ! i = toprule) (?p # [Suc ?p..<length ls])"
    unfolding top_rule_def by (metis filter_append)
  moreover have "filter (\<lambda>i. ls ! i = toprule) [0..<?p] = []"
    using marker_index_first by (simp add: filter_empty_conv)
  ultimately show ?thesis using marker_index_nth [OF assms] by simp
qed

lemma take_marker_index: "take (marker_index ls) ls = takeWhile (\<lambda>l. l \<noteq> toprule) ls"
  unfolding marker_index_def by (metis takeWhile_eq_take)

lemma drop_marker_index: "drop (marker_index ls) ls = dropWhile (\<lambda>l. l \<noteq> toprule) ls"
  unfolding marker_index_def by (metis dropWhile_eq_drop)

lemma insert_command_block_no_marker:
  "toprule \<notin> set (split_nl b) \<Longrightarrow> insert_command_block b command row = Inl IndexError"
  by (simp add: insert_command_block_def top_rule_Nil)

lemma insert_command_block_marker:
  assumes "toprule \<in> set (split_nl b)"
  shows "insert_command_block b command row =
           Inr (join_nl (py_insert (split_nl b) (int (marker_index (split_nl b)) + row) command))"
proof -
  obtain rest where "top_rule (split_nl b) = marker_index (split_nl b) # rest"
    using top_rule_Cons [OF assms] by blast
  then show ?thesis by (simp add: insert_command_block_def Let_def)
qed

lemma insert_command_block_error:
  "insert_command_block b command row = Inl e \<Longrightarrow> e = IndexError"
  by (cases "toprule \<in> set (split_nl b)")
     (simp_all add: insert_command_block_marker insert_command_block_no_marker)

lemma insert_command_error: "insert_command blocks command row = Inl e \<Longrightarrow> e = IndexError"
proof (induction blocks arbitrary: e)
  case Nil
  then show ?case by simp
next
  case (Cons b blocks)
  then show ?case
    by (auto split: sum.splits dest: insert_command_block_error)
qed


lemma insert_command_all_markers:
  assumes "\<forall>b \<in> set blocks. toprule \<in> set (split_nl b)"
  shows "insert_command blocks command row =
           Inr (map (\<lambda>b. join_nl (py_insert (split_nl b)
                                     (int (marker_index (split_nl b)) + row) command)) blocks)"
  using assms by (induction blocks) (simp_all add: insert_command_block_marker)

lemma py_insert_nat: "k \<le> length xs \<Longrightarrow> py_insert xs (int k) x = take k xs @ x # drop k xs"
  by (simp add: py_insert_def slice_index_nat min_absorb1)

lemma newline_notin_tokens:
  "newline \<notin> set toprule" "newline \<notin> set midrule" "newline \<notin> set centering"
  by (simp_all add: toprule_def midrule_def centering_def newline_def backslash_def)

lemma marker_index_append: "toprule \<in> set xs \<Longrightarrow> marker_index (xs @ ys) = marker_index xs"
  unfolding marker_index_def by (induction xs) auto

lemma marker_in_take:
  assumes "toprule \<in> set ls" and "marker_index ls < k"
  shows "toprule \<in> set (take k ls)"
proof -
  have "marker_index ls < length (take k ls)"
    using assms marker_index_less [OF assms(1)] by simp
  then have "take k ls ! marker_index ls \<in> set (take k ls)" by (rule nth_mem)
  then show ?thesis using assms marker_index_nth [OF assms(1)] by simp
qed

lemma marker_index_take:
  assumes "toprule \<in> set ls" and "marker_index ls < k"
  shows "marker_index (take k ls @ ys) = marker_index ls"
proof -
  have t: "toprule \<in> set (take k ls)" using assms by (rule marker_in_take)
  have "marker_index ls = marker_index (take k ls @ drop k ls)" by simp
  also have "\<dots> = marker_index (take k ls)" using t by (rule marker_index_append)
  finally show ?thesis using marker_index_append [OF t] by simp
qed

lemma insert_lines:
  assumes "newline \<notin> set command"
  shows "split_nl (join_nl (take k (split_nl b) @ command # drop k (split_nl b)))
           = take k (split_nl b) @ command # drop k (split_nl b)"
proof (rule split_join)
  show "take k (split_nl b) @ command # drop k (split_nl b) \<noteq> []" by simp
  show "\<forall>l \<in> set (take k (split_nl b) @ command # drop k (split_nl b)). newline \<notin> set l"
  proof
    fix l assume "l \<in> set (take k (split_nl b) @ command # drop k (split_nl b))"
    then have "l = command \<or> l \<in> set (split_nl b)"
      by (auto dest: in_set_takeD in_set_dropD)
    then show "newline \<notin> set l" using assms split_nl_no_newline by blast
  qed
qed

lemma insert_command_at_marker:
  assumes "\<forall>b \<in> set blocks. toprule \<in> set (split_nl b)"
  shows "insert_command blocks command 0 =
           Inr (map (\<lambda>b. join_nl (takeWhile (\<lambda>l. l \<noteq> toprule) (split_nl b)
                                    @ command # dropWhile (\<lambda>l. l \<noteq> toprule) (split_nl b)))
                    blocks)"
proof -
  have "py_insert (split_nl b) (int (marker_index (split_nl b)) + 0) command
          = takeWhile (\<lambda>l. l \<noteq> toprule) (split_nl b)
            @ command # dropWhile (\<lambda>l. l \<noteq> toprule) (split_nl b)"
    if "b \<in> set blocks" for b
  proof -
    have "marker_index (split_nl b) \<le> length (split_nl b)"
      using assms that marker_index_less [of "split_nl b"] by (simp add: less_imp_le)
    then show ?thesis
      by (simp add: py_insert_nat take_marker_index drop_marker_index)
  qed
  then show ?thesis
    unfolding insert_command_all_markers [OF assms] by simp
qed


lemma sample_lines:
  "split_nl (''a'' @ newline # toprule @ newline # ''b'') = [''a'', toprule, ''b'']"
  by (simp add: toprule_def newline_def backslash_def)


lemma midrules_block:
  assumes m: "toprule \<in> set (split_nl b)"
    and k: "marker_index (split_nl b) + 2 \<le> length (split_nl b)"
  shows "insert_command_block b midrule 2 =
           Inr (join_nl (take (marker_index (split_nl b) + 2) (split_nl b)
                         @ midrule # drop (marker_index (split_nl b) + 2) (split_nl b)))"
    and "insert_command_block
           (join_nl (take (marker_index (split_nl b) + 2) (split_nl b)
                     @ midrule # drop (marker_index (split_nl b) + 2) (split_nl b))) midrule 3 =
           Inr (join_nl (take (marker_index (split_nl b) + 2) (split_nl b)
                         @ midrule # midrule # drop (marker_index (split_nl b) + 2) (split_nl b)))"
proof -
  let ?L = "split_nl b"
  let ?p = "marker_index ?L"
  let ?L1 = "take (?p + 2) ?L @ midrule # drop (?p + 2) ?L"
  have i2: "int ?p + 2 = int (?p + 2)" by simp
  show "insert_command_block b midrule 2 = Inr (join_nl ?L1)"
    unfolding insert_command_block_marker [OF m] i2 py_insert_nat [OF k] ..
  have s: "split_nl (join_nl ?L1) = ?L1"
    using newline_notin_tokens(2) by (rule insert_lines)
  have m1: "toprule \<in> set ?L1"
    using marker_in_take [OF m, of "?p + 2"] by simp
  have p1: "marker_index ?L1 = ?p"
    using marker_index_take [OF m, of "?p + 2"] by simp
  have i3: "int ?p + 3 = int (?p + 3)" by simp
  have k1: "?p + 3 \<le> length ?L1" using k by simp
  have t: "take (?p + 3) ?L1 = take (?p + 2) ?L @ [midrule]"
    using k by (simp add: min_absorb2)
  have d: "drop (?p + 3) ?L1 = drop (?p + 2) ?L"
    using k by (simp add: min_absorb2)
  have "insert_command_block (join_nl ?L1) midrule 3
          = Inr (join_nl (take (?p + 3) ?L1 @ midrule # drop (?p + 3) ?L1))"
    using insert_command_block_marker [of "join_nl ?L1" midrule 3] m1
    unfolding s p1 i3 py_insert_nat [OF k1] by simp
  then show "insert_command_block (join_nl ?L1) midrule 3 =
           Inr (join_nl (take (?p + 2) ?L @ midrule # midrule # drop (?p + 2) ?L))"
    unfolding t d by simp
qed

lemma midrules_2_2:
  assumes "\<forall>b \<in> set blocks. toprule \<in> set (split_nl b)
             \<and> marker_index (split_nl b) + 2 \<le> length (split_nl b)"
  shows "insert_midrules blocks 0 [2, 2] =
           Inr (map (\<lambda>b. join_nl (take (marker_index (split_nl b) + 2) (split_nl b)
                          @ midrule # midrule # drop (marker_index (split_nl b) + 2) (split_nl b)))
                    blocks)"
proof -
  let ?f1 = "\<lambda>b. join_nl (take (marker_index (split_nl b) + 2) (split_nl b)
                          @ midrule # drop (marker_index (split_nl b) + 2) (split_nl b))"
  let ?f2 = "\<lambda>b. join_nl (take (marker_index (split_nl b) + 2) (split_nl b)
                          @ midrule # midrule # drop (marker_index (split_nl b) + 2) (split_nl b))"
  have a: "insert_command bs midrule 2 = Inr (map ?f1 bs)" if "set bs \<subseteq> set blocks" for bs
    using that
  proof (induction bs)
    case Nil
    show ?case by simp
  next
    case (Cons b bs)
    then show ?case using assms midrules_block(1) [of b] by simp
  qed
  have b: "insert_command (map ?f1 bs) midrule 3 = Inr (map ?f2 bs)" if "set bs \<subseteq> set blocks" for bs
    using that
  proof (induction bs)
    case Nil
    show ?case by simp
  next
    case (Cons b bs)
    then show ?case using assms midrules_block(2) [of b] by simp
  qed
  show ?thesis using a [of blocks] b [of blocks] by simp
qed

section \<open>The decorator: results\<close>

text \<open>
  C4. The claim: a block with no line equal to \<open>"\\toprule"\<close> makes \<open>insert_command\<close>
  fail with the \<open>MalformedMarkup\<close> error and with no other error. The module defines no
  such error and raises nothing itself: on the one-line block \<open>"no rule"\<close> the list of
  marker indices is empty and \<open>top_rule[0]\<close> raises Python's \<open>IndexError\<close>.
\<close>

theorem insert_command_no_marker_index_error:
  "insert_command [''no rule''] midrule 2 = Inl IndexError"
proof -
  have "toprule \<notin> set (split_nl ''no rule'')"
    by (simp add: toprule_def newline_def)
  then have "insert_command_block ''no rule'' midrule 2 = Inl IndexError"
    by (rule insert_command_block_no_marker)
  then show ?thesis by simp
qed

text \<open>
  C4, as the code has it. When a block of the list has no line equal to \<open>"\\toprule"\<close>,
  \<open>insert_command\<close> returns nothing and fails with \<open>IndexError\<close>, raised by
  \<open>top_rule[0]\<close> on the empty list of marker indices, whatever the command and the row; it
  fails with no other error.
\<close>

theorem insert_command_no_marker_fails:
  assumes "b \<in> set blocks" and "toprule \<notin> set (split_nl b)"
  shows "insert_command blocks command row = Inl IndexError"
  using assms
proof (induction blocks)
  case Nil
  then show ?case by simp
next
  case (Cons a blocks)
  show ?case
  proof (cases "insert_command_block a command row")
    case (Inl e)
    then show ?thesis using insert_command_block_error [OF Inl] by simp
  next
    case (Inr st_new)
    then have "a \<noteq> b" using Cons.prems(2) insert_command_block_no_marker by fastforce
    then have "insert_command blocks command row = Inl IndexError"
      using Cons by simp
    with Inr show ?thesis by simp
  qed
qed


theorem insert_command_no_marker_fails_witness:
  "''tabular'' \<in> set [''tabular''] \<and> toprule \<notin> set (split_nl ''tabular'')
   \<and> insert_command [''tabular''] centering 0 = Inl IndexError"
proof -
  have h: "toprule \<notin> set (split_nl ''tabular'')"
    by (simp add: toprule_def newline_def)
  show ?thesis using insert_command_no_marker_fails [of "''tabular''" "[''tabular'']" centering 0] h by simp
qed


text \<open>
  C6. When every block has a line equal to \<open>"\\toprule"\<close>, \<open>insert_command\<close> at row 0
  returns, for each block, the lines before the first marker line unchanged, then the
  command, then the first marker line and the lines after it unchanged, rejoined with
  newlines. The lines before the command hold no marker and the line after the command is
  the marker; for a command without a newline these are the lines of the new block.
\<close>

theorem insert_command_offset_0_before_marker:
  assumes "\<forall>b \<in> set blocks. toprule \<in> set (split_nl b)"
  shows "insert_command blocks command 0 =
           Inr (map (\<lambda>b. join_nl (takeWhile (\<lambda>l. l \<noteq> toprule) (split_nl b)
                                    @ command # dropWhile (\<lambda>l. l \<noteq> toprule) (split_nl b)))
                    blocks)
         \<and> (\<forall>b \<in> set blocks.
               toprule \<notin> set (takeWhile (\<lambda>l. l \<noteq> toprule) (split_nl b))
               \<and> hd (dropWhile (\<lambda>l. l \<noteq> toprule) (split_nl b)) = toprule
               \<and> (newline \<notin> set command \<longrightarrow>
                    split_nl (join_nl (takeWhile (\<lambda>l. l \<noteq> toprule) (split_nl b)
                                       @ command # dropWhile (\<lambda>l. l \<noteq> toprule) (split_nl b)))
                    = takeWhile (\<lambda>l. l \<noteq> toprule) (split_nl b)
                      @ command # dropWhile (\<lambda>l. l \<noteq> toprule) (split_nl b)))"
proof (intro conjI ballI impI)
  show "insert_command blocks command 0 =
           Inr (map (\<lambda>b. join_nl (takeWhile (\<lambda>l. l \<noteq> toprule) (split_nl b)
                                    @ command # dropWhile (\<lambda>l. l \<noteq> toprule) (split_nl b)))
                    blocks)"
    using assms by (rule insert_command_at_marker)
next
  fix b assume "b \<in> set blocks"
  show "toprule \<notin> set (takeWhile (\<lambda>l. l \<noteq> toprule) (split_nl b))"
    by (auto dest: set_takeWhileD)
next
  fix b assume "b \<in> set blocks"
  then have "toprule \<in> set (split_nl b)" using assms by simp
  then have "dropWhile (\<lambda>l. l \<noteq> toprule) (split_nl b) \<noteq> []" by simp
  then show "hd (dropWhile (\<lambda>l. l \<noteq> toprule) (split_nl b)) = toprule"
    using hd_dropWhile [of "\<lambda>l. l \<noteq> toprule" "split_nl b"] by simp
next
  fix b assume "b \<in> set blocks" and nl: "newline \<notin> set command"
  show "split_nl (join_nl (takeWhile (\<lambda>l. l \<noteq> toprule) (split_nl b)
                                       @ command # dropWhile (\<lambda>l. l \<noteq> toprule) (split_nl b)))
                    = takeWhile (\<lambda>l. l \<noteq> toprule) (split_nl b)
                      @ command # dropWhile (\<lambda>l. l \<noteq> toprule) (split_nl b)"
    using insert_lines [OF nl, of "marker_index (split_nl b)" b]
    by (simp add: take_marker_index drop_marker_index)
qed

theorem insert_command_offset_0_before_marker_witness:
  "toprule \<in> set (split_nl (''a'' @ newline # toprule @ newline # ''b''))
   \<and> insert_command [''a'' @ newline # toprule @ newline # ''b''] centering 0
       = Inr [''a'' @ newline # centering @ newline # toprule @ newline # ''b'']"
proof -
  define B where "B = ''a'' @ newline # toprule @ newline # ''b''"
  have L: "split_nl B = [''a'', toprule, ''b'']"
    unfolding B_def by (rule sample_lines)
  have t: "''a'' \<noteq> toprule" by (simp add: toprule_def)
  have m: "toprule \<in> set (split_nl B)" by (simp add: L)
  then have h: "\<forall>b \<in> set [B]. toprule \<in> set (split_nl b)" by simp
  have "insert_command [B] centering 0 =
          Inr (map (\<lambda>b. join_nl (takeWhile (\<lambda>l. l \<noteq> toprule) (split_nl b)
                                   @ centering # dropWhile (\<lambda>l. l \<noteq> toprule) (split_nl b)))
                   [B])"
    using insert_command_offset_0_before_marker [OF h, of centering] by (rule conjunct1)
  then have "insert_command [B] centering 0 = Inr [join_nl [''a'', centering, toprule, ''b'']]"
    using t by (simp add: L)
  then have "insert_command [B] centering 0
               = Inr [''a'' @ newline # centering @ newline # toprule @ newline # ''b'']"
    by simp
  with m show ?thesis unfolding B_def by blast
qed

lemma tokens_distinct: "midrule \<noteq> toprule" "centering \<noteq> toprule"
  by (simp_all add: midrule_def toprule_def centering_def)

lemma insert_lines2:
  "split_nl (join_nl (take k (split_nl b) @ midrule # midrule # drop k (split_nl b)))
           = take k (split_nl b) @ midrule # midrule # drop k (split_nl b)"
proof (rule split_join)
  show "take k (split_nl b) @ midrule # midrule # drop k (split_nl b) \<noteq> []" by simp
  show "\<forall>l \<in> set (take k (split_nl b) @ midrule # midrule # drop k (split_nl b)). newline \<notin> set l"
  proof
    fix l assume "l \<in> set (take k (split_nl b) @ midrule # midrule # drop k (split_nl b))"
    then have "l = midrule \<or> l \<in> set (split_nl b)"
      by (auto dest: in_set_takeD in_set_dropD)
    then show "newline \<notin> set l" using newline_notin_tokens(2) split_nl_no_newline by blast
  qed
qed

lemma sample_lines4:
  "split_nl (''a'' @ newline # toprule @ newline # ''b'' @ newline # ''c'')
     = [''a'', toprule, ''b'', ''c'']"
  by (simp add: toprule_def newline_def backslash_def)

text \<open>
  C5. The claim: for every block with a marker line, the mid-rules \<open>[2, 2]\<close> give two
  directive lines at the positions 2 and 3 after the marker. In the block \<open>"\\toprule"\<close>
  the marker is the last line: \<open>insert\<close> clamps the index 2 to the end of the two-line
  list and the index 3 to the end of the three-line list, and the directives are at the
  positions 1 and 2.
\<close>

theorem insert_midrules_2_2_marker_last:
  "map_sum id (map split_nl) (insert_midrules [toprule] 0 [2, 2]) = Inr [[toprule, midrule, midrule]]"
proof -
  have l0: "split_nl toprule = [toprule]"
    using newline_notin_tokens(1) by (rule split_nl_line)
  have t0: "top_rule [toprule] = [0]" by (simp add: top_rule_def)
  have s1: "insert_command_block toprule midrule 2 = Inr (join_nl [toprule, midrule])"
    by (simp add: insert_command_block_def l0 t0 py_insert_def slice_index_def)
  have l1: "split_nl (join_nl [toprule, midrule]) = [toprule, midrule]"
    by (rule split_join) (simp_all add: newline_notin_tokens)
  have t1: "top_rule [toprule, midrule] = [0]"
    using tokens_distinct(1) by (simp add: top_rule_def upt_rec)
  have s2: "insert_command_block (join_nl [toprule, midrule]) midrule 3
              = Inr (join_nl [toprule, midrule, midrule])"
    unfolding insert_command_block_def l1 Let_def t1
    by (simp add: py_insert_def slice_index_def)
  have l2: "split_nl (join_nl [toprule, midrule, midrule]) = [toprule, midrule, midrule]"
    by (rule split_join) (simp_all add: newline_notin_tokens)
  have "insert_midrules [toprule] 0 [2, 2] = Inr [join_nl [toprule, midrule, midrule]]"
    using s1 s2 by simp
  then show ?thesis using l2 by simp
qed

text \<open>
  C5, as the code has it. The loop of \<open>wide_table\<close> over the mid-rules \<open>[2, 2]\<close> inserts
  the directive at the rows \<open>2 + 0\<close> and \<open>2 + 1\<close>. When every block has a marker line that
  is followed by at least one more line (its first marker is at index \<open>p\<close> and
  \<open>p + 2\<close> is at most the number of lines), the new block is the lines \<open>[0, p + 2)\<close>,
  two directive lines, and the lines from \<open>p + 2\<close> on: the directives are the lines
  \<open>p + 2\<close> and \<open>p + 3\<close> of the new block.
\<close>

theorem insert_midrules_2_2_positions:
  assumes "\<forall>b \<in> set blocks. toprule \<in> set (split_nl b)
             \<and> marker_index (split_nl b) + 2 \<le> length (split_nl b)"
  shows "insert_midrules blocks 0 [2, 2] =
           Inr (map (\<lambda>b. join_nl (take (marker_index (split_nl b) + 2) (split_nl b)
                          @ midrule # midrule # drop (marker_index (split_nl b) + 2) (split_nl b)))
                    blocks)
         \<and> (\<forall>b \<in> set blocks.
               split_nl (join_nl (take (marker_index (split_nl b) + 2) (split_nl b)
                          @ midrule # midrule # drop (marker_index (split_nl b) + 2) (split_nl b)))
               = take (marker_index (split_nl b) + 2) (split_nl b)
                 @ midrule # midrule # drop (marker_index (split_nl b) + 2) (split_nl b)
               \<and> (take (marker_index (split_nl b) + 2) (split_nl b)
                 @ midrule # midrule # drop (marker_index (split_nl b) + 2) (split_nl b))
                   ! (marker_index (split_nl b) + 2) = midrule
               \<and> (take (marker_index (split_nl b) + 2) (split_nl b)
                 @ midrule # midrule # drop (marker_index (split_nl b) + 2) (split_nl b))
                   ! (marker_index (split_nl b) + 3) = midrule)"
proof (intro conjI ballI)
  show "insert_midrules blocks 0 [2, 2] =
           Inr (map (\<lambda>b. join_nl (take (marker_index (split_nl b) + 2) (split_nl b)
                          @ midrule # midrule # drop (marker_index (split_nl b) + 2) (split_nl b)))
                    blocks)"
    using assms by (rule midrules_2_2)
next
  fix b assume "b \<in> set blocks"
  show "split_nl (join_nl (take (marker_index (split_nl b) + 2) (split_nl b)
                          @ midrule # midrule # drop (marker_index (split_nl b) + 2) (split_nl b)))
               = take (marker_index (split_nl b) + 2) (split_nl b)
                 @ midrule # midrule # drop (marker_index (split_nl b) + 2) (split_nl b)"
    by (rule insert_lines2)
next
  fix b assume "b \<in> set blocks"
  then have k: "marker_index (split_nl b) + 2 \<le> length (split_nl b)" using assms by simp
  then have "length (take (marker_index (split_nl b) + 2) (split_nl b)) = marker_index (split_nl b) + 2"
    by simp
  then show "(take (marker_index (split_nl b) + 2) (split_nl b)
                 @ midrule # midrule # drop (marker_index (split_nl b) + 2) (split_nl b))
                   ! (marker_index (split_nl b) + 2) = midrule"
    by (metis nth_append_length)
next
  fix b assume "b \<in> set blocks"
  then have k: "marker_index (split_nl b) + 2 \<le> length (split_nl b)" using assms by simp
  then have "length (take (marker_index (split_nl b) + 2) (split_nl b) @ [midrule]) = marker_index (split_nl b) + 3"
    by simp
  then have "((take (marker_index (split_nl b) + 2) (split_nl b) @ [midrule])
                 @ midrule # drop (marker_index (split_nl b) + 2) (split_nl b))
                   ! (marker_index (split_nl b) + 3) = midrule"
    by (metis nth_append_length)
  then show "(take (marker_index (split_nl b) + 2) (split_nl b)
                 @ midrule # midrule # drop (marker_index (split_nl b) + 2) (split_nl b))
                   ! (marker_index (split_nl b) + 3) = midrule"
    by simp
qed

theorem insert_midrules_2_2_positions_witness:
  "toprule \<in> set (split_nl (''a'' @ newline # toprule @ newline # ''b'' @ newline # ''c''))
   \<and> marker_index (split_nl (''a'' @ newline # toprule @ newline # ''b'' @ newline # ''c'')) + 2
       \<le> length (split_nl (''a'' @ newline # toprule @ newline # ''b'' @ newline # ''c''))
   \<and> insert_midrules [''a'' @ newline # toprule @ newline # ''b'' @ newline # ''c''] 0 [2, 2]
       = Inr [''a'' @ newline # toprule @ newline # ''b'' @ newline # midrule @ newline # midrule
              @ newline # ''c'']"
proof -
  define B where "B = ''a'' @ newline # toprule @ newline # ''b'' @ newline # ''c''"
  have L: "split_nl B = [''a'', toprule, ''b'', ''c'']"
    unfolding B_def by (rule sample_lines4)
  have t: "''a'' \<noteq> toprule" by (simp add: toprule_def)
  have p: "marker_index [''a'', toprule, ''b'', ''c''] = 1"
    using t by (simp add: marker_index_def)
  have m: "toprule \<in> set (split_nl B)"
    and k: "marker_index (split_nl B) + 2 \<le> length (split_nl B)"
    by (simp_all add: L p)
  then have h: "\<forall>b \<in> set [B]. toprule \<in> set (split_nl b)
             \<and> marker_index (split_nl b) + 2 \<le> length (split_nl b)"
    by simp
  have "insert_midrules [B] 0 [2, 2] =
          Inr (map (\<lambda>b. join_nl (take (marker_index (split_nl b) + 2) (split_nl b)
                          @ midrule # midrule # drop (marker_index (split_nl b) + 2) (split_nl b)))
                   [B])"
    using insert_midrules_2_2_positions [OF h] by (rule conjunct1)
  then have "insert_midrules [B] 0 [2, 2]
               = Inr [join_nl [''a'', toprule, ''b'', midrule, midrule, ''c'']]"
    by (simp add: L p)
  then have "insert_midrules [B] 0 [2, 2]
               = Inr [''a'' @ newline # toprule @ newline # ''b'' @ newline # midrule @ newline
                      # midrule @ newline # ''c'']"
    by simp
  with m k show ?thesis unfolding B_def by blast
qed

section \<open>The container wrap: results\<close>

lemma newline_notin_container:
  "newline \<notin> set container \<Longrightarrow> newline \<notin> set (begin_container container)"
  "newline \<notin> set container \<Longrightarrow> newline \<notin> set (end_container container)"
  by (simp_all add: begin_container_def end_container_def newline_def backslash_def)

lemma wrap_lines:
  assumes "newline \<notin> set container"
  shows "split_nl (begin_container container @ [newline] @ lt @ end_container container @ [newline])
           = begin_container container # butlast (split_nl lt)
             @ [last (split_nl lt) @ end_container container, []]"
proof -
  have e: "split_nl (end_container container @ [newline]) = [end_container container, []]"
    using split_nl_line_newline [OF newline_notin_container(2) [OF assms], of "[]"] by simp
  have "split_nl (lt @ end_container container @ [newline])
          = butlast (split_nl lt) @ [last (split_nl lt) @ end_container container, []]"
    unfolding split_nl_append [of lt] e by simp
  then show ?thesis
    using split_nl_line_newline [OF newline_notin_container(1) [OF assms]] by simp
qed

lemma last_line_empty: "last (split_nl lt) = [] \<longleftrightarrow> lt = [] \<or> last lt = newline"
proof (cases lt rule: rev_cases)
  case Nil
  then show ?thesis by simp
next
  case (snoc xs c)
  have "split_nl (xs @ [c])
          = butlast (split_nl xs) @ (last (split_nl xs) @ hd (split_nl [c])) # tl (split_nl [c])"
    by (rule split_nl_append)
  then show ?thesis using snoc by (cases "c = newline") simp_all
qed

text \<open>
  C10. The claim: the close directive of \<open>wrap_table\<close> is on a line of its own only when
  the block ends with a newline. The empty block does not end with a newline, and its
  close directive is a line of its own, right after the open directive.
\<close>

theorem wrap_table_empty_block:
  "map split_nl (wrap_table [[]] ''table'')
     = [[begin_container ''table'', end_container ''table'', []]]"
proof -
  have "newline \<notin> set ''table''" by (simp add: newline_def)
  note w = wrap_lines [OF this]
  show ?thesis unfolding wrap_table_def list.map w by simp
qed

text \<open>
  C10, as the code has it. A wrapped block is the open directive, a newline, the block, the
  close directive and a newline. For a container name without a newline its lines are: the
  open directive, always a line of its own; the lines of the block but the last; the last
  line of the block with the close directive appended; and an empty line. That line is the
  close directive alone exactly when the block is empty or ends with a newline; for a
  non-empty block that does not end with a newline the close directive follows the text of
  the block's last line.
\<close>

theorem wrap_table_lines:
  "wrap_table latex_tables container
     = map (\<lambda>lt. begin_container container @ newline # lt @ end_container container @ [newline])
           latex_tables
   \<and> (newline \<notin> set container \<longrightarrow>
        map split_nl (wrap_table latex_tables container)
          = map (\<lambda>lt. begin_container container # butlast (split_nl lt)
                       @ [last (split_nl lt) @ end_container container, []])
                latex_tables)
   \<and> (last (split_nl lt) @ end_container container = end_container container
        \<longleftrightarrow> lt = [] \<or> last lt = newline)"
proof (intro conjI impI)
  show "wrap_table latex_tables container
     = map (\<lambda>lt. begin_container container @ newline # lt @ end_container container @ [newline])
           latex_tables"
    by (simp add: wrap_table_def)
next
  assume "newline \<notin> set container"
  note w = wrap_lines [OF this]
  show "map split_nl (wrap_table latex_tables container)
          = map (\<lambda>lt. begin_container container # butlast (split_nl lt)
                       @ [last (split_nl lt) @ end_container container, []])
                latex_tables"
    unfolding wrap_table_def map_map o_def w ..
next
  show "last (split_nl lt) @ end_container container = end_container container
        \<longleftrightarrow> lt = [] \<or> last lt = newline"
    using last_line_empty [of lt] by simp
qed

theorem wrap_table_lines_witness:
  "newline \<notin> set ''table''
   \<and> map split_nl (wrap_table [''x'', ''x'' @ [newline]] ''table'')
       = [[begin_container ''table'', ''x'' @ end_container ''table'', []],
          [begin_container ''table'', ''x'', end_container ''table'', []]]"
proof -
  have n: "newline \<notin> set ''table''" by (simp add: newline_def)
  have x: "split_nl ''x'' = [''x'']" "split_nl (''x'' @ [newline]) = [''x'', []]"
    by (simp_all add: newline_def)
  have "map split_nl (wrap_table [''x'', ''x'' @ [newline]] ''table'')
          = map (\<lambda>lt. begin_container ''table'' # butlast (split_nl lt)
                       @ [last (split_nl lt) @ end_container ''table'', []])
                [''x'', ''x'' @ [newline]]"
    using wrap_table_lines [of "[''x'', ''x'' @ [newline]]" "''table''"] n by blast
  then show ?thesis using n unfolding list.map x by simp
qed

section \<open>The orchestrator: results\<close>

lemma newpage_lines: "split_nl (newpage @ b) = (backslash # ''newpage'') # split_nl b"
proof -
  have "newline \<notin> set (backslash # ''newpage'')" by (simp add: newline_def backslash_def)
  then have "split_nl ((backslash # ''newpage'') @ newline # b) = (backslash # ''newpage'') # split_nl b"
    by (rule split_nl_line_newline)
  then show ?thesis by (simp add: newpage_def)
qed

text \<open>
  C9. With \<open>center\<close> and \<open>landscape\<close> disabled and no mid-rule (\<open>midrules\<close> is \<open>None\<close> or
  the empty list), \<open>wide_table\<close> returns the rendered blocks, in order, each after the
  prefix \<open>"\\newpage\n"\<close>, concatenated with nothing between them and no container. In
  each prefixed block the page-break directive is the first line and the lines of the
  rendered block follow it.
\<close>

theorem wide_table_plain_concatenation:
  assumes "generate_subtables table no_cols = Inr subtables"
    and "midrules = None \<or> midrules = Some []"
  shows "wide_table to_latex table no_cols False False midrules
           = Inr (concat (map (\<lambda>st. (backslash # ''newpage'') @ [newline] @ to_latex st) subtables))
         \<and> (\<forall>st \<in> set subtables.
               split_nl ((backslash # ''newpage'') @ [newline] @ to_latex st)
                 = (backslash # ''newpage'') # split_nl (to_latex st))"
proof -
  have a: "wide_table to_latex table no_cols False False midrules
           = Inr (concat (map (\<lambda>st. newpage @ to_latex st) subtables))"
    using assms
    by (auto simp add: wide_table_def wide_table_blocks_def latex_subtables_def
          combine_subtables_def o_def)
  have n: "newpage @ s = (backslash # ''newpage'') @ [newline] @ s" for s
    by (simp add: newpage_def)
  show ?thesis using a newpage_lines unfolding n by simp
qed

theorem wide_table_plain_concatenation_witness:
  "generate_subtables [''a'', ''b'', ''c''] 2 = Inr [[''a'', ''b''], [''c'']]
   \<and> ((None :: int list option) = None \<or> (None :: int list option) = Some [])
   \<and> wide_table sample_to_latex [''a'', ''b'', ''c''] 2 False False None
       = Inr ((backslash # ''newpage'') @ [newline] @ sample_to_latex [''a'', ''b'']
              @ (backslash # ''newpage'') @ [newline] @ sample_to_latex [''c''])"
proof -
  have g: "generate_subtables [''a'', ''b'', ''c''] 2 = Inr [[''a'', ''b''], [''c'']]"
    using generate_subtables_pos [of 2 "[''a'', ''b'', ''c'']"] by (simp add: upt_rec)
  have m: "(None :: int list option) = None \<or> (None :: int list option) = Some []" by simp
  show ?thesis using wide_table_plain_concatenation [OF g m, of sample_to_latex] g by simp
qed


lemma begin_table_not_landscape: "begin_container ''table'' \<noteq> begin_container ''landscape''"
  by (simp add: begin_container_def)




















end
